theory Spec2Isabelle
  imports Complex_Main
begin

section \<open>The PS4 robot controller (robot\_controller.py, robot\_ps4/config.py)\<close>

text \<open>
  A shallow embedding of the class \<open>PS4Controller\<close>. The object is a record that is
  passed in and returned updated. Python floats are idealised as reals: the program only
  negates them, adds the literal 0.01 and subtracts two clock readings. Everything the
  object does to the outside (writing \<open>robot.value\<close>, calling the logger, sleeping) is
  appended, in program order, to the field \<open>trace\<close>; these calls into gpiozero,
  logging and time are taken to succeed. The trace starts empty when the object has been
  constructed, so the records logged during construction are not in it. A raised
  exception is the left summand of the result and carries the object as it was when the
  exception was raised.
\<close>

subsection \<open>Configuration (robot\_ps4/config.py)\<close>

record config =
  LEFT_MOTOR_SPEED :: real
  RIGHT_MOTOR_SPEED :: real
  SLOW_SPEED :: real
  NORMAL_SPEED :: real
  FAST_SPEED :: real
  SUPER_SPEED :: real
  HIGH_DEADZONE_env :: int
  LOW_DEADZONE_env :: int

text \<open>The values config.py uses when the environment sets none of the variables.\<close>

definition default_config :: config where
  "default_config =
     \<lparr>LEFT_MOTOR_SPEED = 0.5, RIGHT_MOTOR_SPEED = 0.51,
      SLOW_SPEED = 0.25, NORMAL_SPEED = 0.5, FAST_SPEED = 0.75, SUPER_SPEED = 0.99,
      HIGH_DEADZONE_env = 150, LOW_DEADZONE_env = 100\<rparr>"

subsection \<open>Events, exceptions and outputs\<close>

text \<open>An \<open>evdev.InputEvent\<close>: its type, code and value.\<close>

record input_event =
  ev_type :: int
  ev_code :: int
  ev_value :: int

text \<open>The constants of \<open>evdev.ecodes\<close> the program reads.\<close>

definition EV_KEY :: int where "EV_KEY = 1"
definition EV_ABS :: int where "EV_ABS = 3"
definition ABS_X :: int where "ABS_X = 0"

definition BUTTON_PRESS :: int where "BUTTON_PRESS = 1"
definition BUTTON_RELEASE :: int where "BUTTON_RELEASE = 0"

text \<open>
  The exceptions of the model. \<open>KeyboardInterrupt\<close> is raised by the triangle button,
  \<open>TypeError\<close> by subtracting \<open>None\<close> from a float, \<open>KeyError\<close> by a dictionary
  lookup, \<open>OSError\<close> by \<open>read_loop\<close> when the device cannot be read. All but
  \<open>KeyboardInterrupt\<close> are subclasses of \<open>Exception\<close>.
\<close>

datatype error = KeyboardInterrupt | TypeError | KeyError | OSError

datatype effect =
    Motor real real
  | Sleep int
  | Info_duration string real
  | Debug_moving string
  | Info_spinning string
  | Info_speeds real real
  | Info_terminated
  | Error_main_loop error

text \<open>
  \<open>Motor l r\<close> is the assignment \<open>robot.value = (l, r)\<close>, \<open>Sleep n\<close> is
  \<open>time.sleep(n)\<close>, \<open>Info_duration d t\<close> is the record "Moving d for t seconds", and
  the others are the remaining calls of the logger.
\<close>

subsection \<open>The controller object\<close>

record controller =
  leftmotorspeed :: real
  rightmotorspeed :: real
  SLOW :: real
  NORMAL :: real
  FAST :: real
  SUPER :: real
  variable_speed_map :: "string \<rightharpoonup> int"
  HIGH_DEADZONE :: int
  LOW_DEADZONE :: int
  current_direction :: "string option"
  direction_start_time :: "real option"
  time_calls :: nat
  trace :: "effect list"

type_synonym clock = "nat \<Rightarrow> real"

type_synonym raised = "error \<times> controller"

definition init :: "config \<Rightarrow> controller" where
  "init cfg =
     \<lparr>leftmotorspeed = LEFT_MOTOR_SPEED cfg,
      rightmotorspeed = RIGHT_MOTOR_SPEED cfg,
      SLOW = SLOW_SPEED cfg,
      NORMAL = NORMAL_SPEED cfg,
      FAST = FAST_SPEED cfg,
      SUPER = SUPER_SPEED cfg,
      variable_speed_map = [''slow'' \<mapsto> 0, ''fast'' \<mapsto> 0, ''super'' \<mapsto> 0],
      HIGH_DEADZONE = HIGH_DEADZONE_env cfg,
      LOW_DEADZONE = LOW_DEADZONE_env cfg,
      current_direction = None,
      direction_start_time = None,
      time_calls = 0,
      trace = []\<rparr>"

definition create_key_map :: "string \<rightharpoonup> int" where
  "create_key_map =
     [''x'' \<mapsto> 304, ''square'' \<mapsto> 308, ''triangle'' \<mapsto> 307, ''circle'' \<mapsto> 305,
      ''lt'' \<mapsto> 312, ''lb'' \<mapsto> 310, ''rt'' \<mapsto> 313, ''rb'' \<mapsto> 311]"

text \<open>
  \<open>self.key_map[name]\<close>. The dictionary is never changed after \<open>create_key_map\<close> and
  the program looks up only the eight names it holds (lemma \<open>key_map_codes\<close>).
\<close>

definition key_map :: "string \<Rightarrow> int" where
  "key_map name = the (create_key_map name)"

text \<open>
  The \<open>n\<close>-th call of \<open>time.time()\<close> returns \<open>clk n\<close>; the object counts the calls.
\<close>

definition time_time :: "clock \<Rightarrow> controller \<Rightarrow> real \<times> controller" where
  "time_time clk s = (clk (time_calls s), s\<lparr>time_calls := Suc (time_calls s)\<rparr>)"

definition emit :: "effect \<Rightarrow> controller \<Rightarrow> controller" where
  "emit out s = s\<lparr>trace := trace s @ [out]\<rparr>"

definition directions :: "controller \<Rightarrow> string \<rightharpoonup> real \<times> real" where
  "directions s =
     [''forward'' \<mapsto> (- leftmotorspeed s, - rightmotorspeed s),
      ''backward'' \<mapsto> (leftmotorspeed s, rightmotorspeed s),
      ''left'' \<mapsto> (- leftmotorspeed s, rightmotorspeed s),
      ''right'' \<mapsto> (leftmotorspeed s, - rightmotorspeed s),
      ''sharp_left'' \<mapsto> (1, - 1),
      ''sharp_right'' \<mapsto> (- 1, 1),
      ''stop'' \<mapsto> (0, 0)]"

subsection \<open>move and spin\<close>

definition move :: "clock \<Rightarrow> string \<Rightarrow> controller \<Rightarrow> raised + controller" where
  "move clk direction s =
     (let changed =
        (if current_direction s \<noteq> Some direction then
           (let logged =
              (case current_direction s of
                 None \<Rightarrow> Inr s
               | Some cur \<Rightarrow>
                   (let (now, s1) = time_time clk s in
                    case direction_start_time s1 of
                      None \<Rightarrow> Inl (TypeError, s1)
                    | Some started \<Rightarrow> Inr (emit (Info_duration cur (now - started)) s1)))
            in case logged of
                 Inl err \<Rightarrow> Inl err
               | Inr s2 \<Rightarrow>
                   (let (now, s3) = time_time clk s2
                    in Inr (s3\<lparr>current_direction := Some direction,
                                direction_start_time := Some now\<rparr>)))
         else Inr s)
      in case changed of
           Inl err \<Rightarrow> Inl err
         | Inr s4 \<Rightarrow>
             (let (l, r) = (case directions s4 direction of Some v \<Rightarrow> v | None \<Rightarrow> (0, 0))
              in Inr (emit (Motor l r) (emit (Debug_moving direction) s4))))"

definition spin :: "clock \<Rightarrow> string \<Rightarrow> controller \<Rightarrow> raised + controller" where
  "spin clk direction s =
     (case move clk (''sharp_'' @ direction) (emit (Info_spinning direction) s) of
        Inl err \<Rightarrow> Inl err
      | Inr s1 \<Rightarrow> move clk ''stop'' (emit (Sleep 1) s1))"

subsection \<open>Speed tiers\<close>

definition modify_speed_helper :: "string \<Rightarrow> controller \<Rightarrow> raised + controller" where
  "modify_speed_helper speed_type s =
     (case variable_speed_map s speed_type of
        None \<Rightarrow> Inl (KeyError, s)
      | Some flag \<Rightarrow>
          if flag = 0 then
            (let s1 =
               (if speed_type = ''slow'' then
                  s\<lparr>leftmotorspeed := SLOW s, rightmotorspeed := SLOW s + 0.01\<rparr>
                else if speed_type = ''fast'' then
                  s\<lparr>leftmotorspeed := FAST s, rightmotorspeed := FAST s + 0.01\<rparr>
                else if speed_type = ''super'' then
                  s\<lparr>leftmotorspeed := SUPER s, rightmotorspeed := SUPER s + 0.01\<rparr>
                else s)
             in Inr (s1\<lparr>variable_speed_map := (variable_speed_map s1)(speed_type \<mapsto> 1)\<rparr>))
          else
            Inr (s\<lparr>leftmotorspeed := NORMAL s, rightmotorspeed := NORMAL s + 0.01,
                    variable_speed_map := (variable_speed_map s)(speed_type \<mapsto> 0)\<rparr>))"

definition modify_speed :: "int \<Rightarrow> controller \<Rightarrow> raised + controller" where
  "modify_speed event_code s =
     (case (if event_code = key_map ''square'' then modify_speed_helper ''slow'' s
            else if event_code = key_map ''x'' then modify_speed_helper ''fast'' s
            else if event_code = key_map ''circle'' then modify_speed_helper ''super'' s
            else Inr s) of
        Inl err \<Rightarrow> Inl err
      | Inr s1 \<Rightarrow> Inr (emit (Info_speeds (leftmotorspeed s1) (rightmotorspeed s1)) s1))"

subsection \<open>Event handlers\<close>

text \<open>A function that returns a value returns it beside the updated object.\<close>

definition returning :: "'a \<Rightarrow> raised + controller \<Rightarrow> raised + 'a \<times> controller" where
  "returning v res = (case res of Inl err \<Rightarrow> Inl err | Inr s \<Rightarrow> Inr (v, s))"

definition handle_key_event ::
    "clock \<Rightarrow> input_event \<Rightarrow> bool \<Rightarrow> controller \<Rightarrow> raised + bool \<times> controller" where
  "handle_key_event clk event button_is_held s =
     (if ev_value event = BUTTON_PRESS then
        (if ev_code event = key_map ''rb'' then returning True (move clk ''forward'' s)
         else if ev_code event = key_map ''lb'' then returning True (move clk ''backward'' s)
         else Inr (True, s))
      else if ev_value event = BUTTON_RELEASE then
        (if ev_code event \<in> set [key_map ''lb'', key_map ''rb''] then
           returning False (move clk ''stop'' s)
         else if ev_code event \<in> set [key_map ''lt'', key_map ''rt''] then
           returning False (spin clk (if ev_code event = 313 then ''right'' else ''left'') s)
         else if ev_code event \<in> set [key_map ''square'', key_map ''x'', key_map ''circle''] then
           returning False (modify_speed (ev_code event) s)
         else if ev_code event = key_map ''triangle'' then Inl (KeyboardInterrupt, s)
         else Inr (False, s))
      else Inr (button_is_held, s))"

text \<open>
  The argument is the event inside the \<open>AbsEvent\<close> that \<open>categorize\<close> builds, which
  is all that \<open>handle_abs_event\<close> reads.
\<close>

definition handle_abs_event ::
    "clock \<Rightarrow> input_event \<Rightarrow> bool \<Rightarrow> controller \<Rightarrow> raised + controller" where
  "handle_abs_event clk event button_is_held s =
     (if ev_code event = ABS_X then
        (if ev_value event \<ge> HIGH_DEADZONE s then move clk ''right'' s
         else if ev_value event \<le> LOW_DEADZONE s then move clk ''left'' s
         else if \<not> button_is_held then move clk ''stop'' s
         else Inr s)
      else Inr s)"

subsection \<open>The session loop\<close>

text \<open>
  What \<open>controller.read_loop()\<close> does each time the loop asks for the next event: it
  yields an event or raises. The list is the finite run of such results up to the end of
  the loop; an exhausted list is an exhausted generator.
\<close>

datatype read = Yield input_event | Read_fails

fun read_loop :: "clock \<Rightarrow> read list \<Rightarrow> bool \<Rightarrow> controller \<Rightarrow> raised + controller" where
  "read_loop clk [] button_is_held s = Inr s"
| "read_loop clk (Read_fails # rest) button_is_held s = Inl (OSError, s)"
| "read_loop clk (Yield event # rest) button_is_held s =
     (if ev_type event = EV_KEY then
        (case handle_key_event clk event button_is_held s of
           Inl err \<Rightarrow> Inl err
         | Inr (held, s1) \<Rightarrow> read_loop clk rest held s1)
      else if ev_type event = EV_ABS then
        (case handle_abs_event clk event button_is_held s of
           Inl err \<Rightarrow> Inl err
         | Inr s1 \<Rightarrow> read_loop clk rest button_is_held s1)
      else read_loop clk rest button_is_held s)"

text \<open>
  \<open>main\<close>: the loop inside \<open>try\<close>, then the two handlers. An exception raised inside
  a handler leaves \<open>main\<close>.
\<close>

definition main :: "clock \<Rightarrow> read list \<Rightarrow> controller \<Rightarrow> raised + controller" where
  "main clk source s =
     (case read_loop clk source False s of
        Inr s1 \<Rightarrow> Inr s1
      | Inl (err, s1) \<Rightarrow>
          if err = KeyboardInterrupt then
            (case move clk ''stop'' s1 of
               Inl err2 \<Rightarrow> Inl err2
             | Inr s2 \<Rightarrow> Inr (emit Info_terminated s2))
          else
            (case move clk ''stop'' s1 of
               Inl err2 \<Rightarrow> Inl err2
             | Inr s2 \<Rightarrow> Inr (emit (Error_main_loop err) s2)))"

subsection \<open>Notions used in the statements\<close>

text \<open>
  The invariant of the two direction fields: a start time is stored whenever a
  direction is.
\<close>

definition timestamp_ok :: "controller \<Rightarrow> bool" where
  "timestamp_ok s =
     (case current_direction s of None \<Rightarrow> True | Some d \<Rightarrow> direction_start_time s \<noteq> None)"

text \<open>The dictionary of the speed flags holds its three keys.\<close>

definition flags_present :: "controller \<Rightarrow> bool" where
  "flags_present s =
     (variable_speed_map s ''slow'' \<noteq> None \<and> variable_speed_map s ''fast'' \<noteq> None \<and>
      variable_speed_map s ''super'' \<noteq> None)"

definition well_formed :: "controller \<Rightarrow> bool" where
  "well_formed s = (timestamp_ok s \<and> flags_present s)"

text \<open>The pair that \<open>move\<close> looks up for a direction.\<close>

definition motor_value :: "controller \<Rightarrow> string \<Rightarrow> real \<times> real" where
  "motor_value s d = (case directions s d of Some v \<Rightarrow> v | None \<Rightarrow> (0, 0))"

text \<open>The magnitude that belongs to a speed tier.\<close>

definition magnitude :: "controller \<Rightarrow> string \<Rightarrow> real" where
  "magnitude s t =
     (if t = ''slow'' then SLOW s else if t = ''fast'' then FAST s
      else if t = ''super'' then SUPER s else NORMAL s)"

text \<open>Whether a call returned, the object it left behind, and what it appended to the trace.\<close>

definition returns :: "raised + 'a \<Rightarrow> bool" where
  "returns res = (case res of Inl err \<Rightarrow> False | Inr v \<Rightarrow> True)"

definition final_state :: "raised + controller \<Rightarrow> controller" where
  "final_state res = (case res of Inl (err, s) \<Rightarrow> s | Inr s \<Rightarrow> s)"

definition without_value :: "raised + 'a \<times> controller \<Rightarrow> raised + controller" where
  "without_value res = (case res of Inl err \<Rightarrow> Inl err | Inr (v, s) \<Rightarrow> Inr s)"

definition returned_value :: "raised + 'a \<times> controller \<Rightarrow> 'a option" where
  "returned_value res = (case res of Inl err \<Rightarrow> None | Inr (v, s) \<Rightarrow> Some v)"

definition new_effects :: "controller \<Rightarrow> raised + controller \<Rightarrow> effect list" where
  "new_effects s res = drop (length (trace s)) (trace (final_state res))"

fun motor_commands :: "effect list \<Rightarrow> (real \<times> real) list" where
  "motor_commands [] = []"
| "motor_commands (Motor l r # es) = (l, r) # motor_commands es"
| "motor_commands (e # es) = motor_commands es"

fun telemetry :: "effect list \<Rightarrow> (string \<times> real) list" where
  "telemetry [] = []"
| "telemetry (Info_duration d t # es) = (d, t) # telemetry es"
| "telemetry (e # es) = telemetry es"

text \<open>The motor commands and the sleeps between them, in order.\<close>

fun commands :: "effect list \<Rightarrow> effect list" where
  "commands [] = []"
| "commands (Motor l r # es) = Motor l r # commands es"
| "commands (Sleep n # es) = Sleep n # commands es"
| "commands (e # es) = commands es"

text \<open>
  The stored start time is one of the readings of the clock that were already taken, and
  no duration in a list of effects is negative.
\<close>

definition start_time_read :: "clock \<Rightarrow> controller \<Rightarrow> bool" where
  "start_time_read clk s =
     (case direction_start_time s of
        None \<Rightarrow> True
      | Some t0 \<Rightarrow> list_ex (\<lambda>n. t0 = clk n) [0..<time_calls s])"

definition durations_ok :: "effect list \<Rightarrow> bool" where
  "durations_ok es = list_all (\<lambda>(c, t). 0 \<le> t) (telemetry es)"

text \<open>What holds of every object of a run when the clock never goes back.\<close>

definition run_sound :: "clock \<Rightarrow> controller \<Rightarrow> bool" where
  "run_sound clk s = (well_formed s \<and> start_time_read clk s \<and> durations_ok (trace s))"

text \<open>Speed toggles one after the other.\<close>

fun toggles :: "string list \<Rightarrow> controller \<Rightarrow> raised + controller" where
  "toggles [] s = Inr s"
| "toggles (t # ts) s =
     (case modify_speed_helper t s of Inl err \<Rightarrow> Inl err | Inr s1 \<Rightarrow> toggles ts s1)"

text \<open>The operations of the object, and a run of calls that ends at the first exception.\<close>

datatype operation =
    Move string
  | Spin string
  | Modify_speed int
  | Modify_speed_helper string
  | Key_event input_event bool
  | Abs_event input_event bool

fun call :: "clock \<Rightarrow> operation \<Rightarrow> controller \<Rightarrow> raised + controller" where
  "call clk (Move d) s = move clk d s"
| "call clk (Spin d) s = spin clk d s"
| "call clk (Modify_speed c) s = modify_speed c s"
| "call clk (Modify_speed_helper t) s = modify_speed_helper t s"
| "call clk (Key_event e held) s = without_value (handle_key_event clk e held s)"
| "call clk (Abs_event e held) s = handle_abs_event clk e held s"

fun calls :: "clock \<Rightarrow> operation list \<Rightarrow> controller \<Rightarrow> raised + controller" where
  "calls clk [] s = Inr s"
| "calls clk (op # ops) s =
     (case call clk op s of Inl err \<Rightarrow> Inl err | Inr s1 \<Rightarrow> calls clk ops s1)"

text \<open>Two clocks: one that advances by a second at each reading, one that is set back.\<close>

definition clock_steady :: clock where
  "clock_steady n = real n"

definition clock_set_back :: clock where
  "clock_set_back n = (if n = 0 then 10 else 5)"

definition key_press :: "int \<Rightarrow> input_event" where
  "key_press c = \<lparr>ev_type = EV_KEY, ev_code = c, ev_value = BUTTON_PRESS\<rparr>"

definition key_release :: "int \<Rightarrow> input_event" where
  "key_release c = \<lparr>ev_type = EV_KEY, ev_code = c, ev_value = BUTTON_RELEASE\<rparr>"

definition axis_x :: "int \<Rightarrow> input_event" where
  "axis_x v = \<lparr>ev_type = EV_ABS, ev_code = ABS_X, ev_value = v\<rparr>"

section \<open>Properties\<close>

subsection \<open>Auxiliary facts\<close>

lemma key_map_codes:
  "key_map ''x'' = 304" "key_map ''square'' = 308" "key_map ''triangle'' = 307"
  "key_map ''circle'' = 305" "key_map ''lt'' = 312" "key_map ''lb'' = 310"
  "key_map ''rt'' = 313" "key_map ''rb'' = 311"
  by (simp_all add: key_map_def create_key_map_def)

lemma move_same:
  assumes "current_direction s = Some d"
  shows "move clk d s =
    Inr (emit (Motor (fst (motor_value s d)) (snd (motor_value s d))) (emit (Debug_moving d) s))"
  using assms by (simp add: move_def motor_value_def split: prod.splits)

lemma move_first:
  assumes "current_direction s = None"
  shows "move clk d s =
    Inr (emit (Motor (fst (motor_value s d)) (snd (motor_value s d))) (emit (Debug_moving d)
      (s\<lparr>time_calls := Suc (time_calls s), current_direction := Some d,
         direction_start_time := Some (clk (time_calls s))\<rparr>)))"
  using assms
  by (simp add: move_def motor_value_def time_time_def directions_def split: prod.splits)

lemma move_change:
  assumes "current_direction s = Some c" "c \<noteq> d" "direction_start_time s = Some t0"
  shows "move clk d s =
    Inr (emit (Motor (fst (motor_value s d)) (snd (motor_value s d))) (emit (Debug_moving d)
      (s\<lparr>time_calls := Suc (Suc (time_calls s)), current_direction := Some d,
         direction_start_time := Some (clk (Suc (time_calls s))),
         trace := trace s @ [Info_duration c (clk (time_calls s) - t0)]\<rparr>)))"
  using assms
  by (simp add: move_def motor_value_def time_time_def directions_def emit_def
      split: prod.splits)

lemma move_raises:
  assumes "current_direction s = Some c" "c \<noteq> d" "direction_start_time s = None"
  shows "move clk d s = Inl (TypeError, s\<lparr>time_calls := Suc (time_calls s)\<rparr>)"
  using assms by (simp add: move_def time_time_def)

lemma motor_value_table:
  "motor_value s ''forward'' = (- leftmotorspeed s, - rightmotorspeed s)"
  "motor_value s ''backward'' = (leftmotorspeed s, rightmotorspeed s)"
  "motor_value s ''left'' = (- leftmotorspeed s, rightmotorspeed s)"
  "motor_value s ''right'' = (leftmotorspeed s, - rightmotorspeed s)"
  "motor_value s ''sharp_left'' = (1, - 1)"
  "motor_value s ''sharp_right'' = (- 1, 1)"
  "motor_value s ''stop'' = (0, 0)"
  by (simp_all add: motor_value_def directions_def)

lemma motor_commands_append:
  "motor_commands (xs @ ys) = motor_commands xs @ motor_commands ys"
  by (induction xs rule: motor_commands.induct) simp_all

lemma telemetry_append: "telemetry (xs @ ys) = telemetry xs @ telemetry ys"
  by (induction xs rule: telemetry.induct) simp_all

lemma commands_append: "commands (xs @ ys) = commands xs @ commands ys"
  by (induction xs rule: commands.induct) simp_all

lemma init_well_formed: "well_formed (init cfg)"
  by (simp add: well_formed_def timestamp_ok_def flags_present_def init_def)

lemma init_timestamp_ok: "timestamp_ok (init cfg)"
  by (simp add: timestamp_ok_def init_def)

text \<open>
  What a call of \<open>move\<close> does to an object that satisfies the invariant: it returns,
  appends the duration record exactly when it leaves a direction, then the debug record
  and the motor command, and changes only the two direction fields and the call count.
\<close>

lemma move_effects:
  assumes "timestamp_ok s"
  shows "\<exists>s' pre. move clk d s = Inr s' \<and>
           trace s' = trace s @ pre @
             [Debug_moving d, Motor (fst (motor_value s d)) (snd (motor_value s d))] \<and>
           pre = (case current_direction s of
                    None \<Rightarrow> []
                  | Some c \<Rightarrow>
                      if c = d then []
                      else [Info_duration c
                              (clk (time_calls s) - the (direction_start_time s))]) \<and>
           current_direction s' = Some d \<and> timestamp_ok s' \<and>
           leftmotorspeed s' = leftmotorspeed s \<and> rightmotorspeed s' = rightmotorspeed s \<and>
           variable_speed_map s' = variable_speed_map s \<and>
           SLOW s' = SLOW s \<and> NORMAL s' = NORMAL s \<and> FAST s' = FAST s \<and>
           SUPER s' = SUPER s \<and>
           HIGH_DEADZONE s' = HIGH_DEADZONE s \<and> LOW_DEADZONE s' = LOW_DEADZONE s"
proof (cases "current_direction s")
  case None
  then show ?thesis
    by (simp add: move_first emit_def timestamp_ok_def)
next
  case (Some c)
  show ?thesis
  proof (cases "c = d")
    case True
    with Some assms show ?thesis
      by (simp add: move_same emit_def timestamp_ok_def)
  next
    case False
    from Some assms obtain t0 where t0: "direction_start_time s = Some t0"
      by (auto simp: timestamp_ok_def)
    from Some False t0 show ?thesis
      by (simp add: move_change emit_def timestamp_ok_def)
  qed
qed

lemma move_motor:
  assumes "timestamp_ok s"
  shows "returns (move clk d s) \<and>
         motor_commands (new_effects s (move clk d s)) = [motor_value s d]"
proof -
  from move_effects [OF assms, of clk d] obtain s' pre where
    m: "move clk d s = Inr s'" and
    t: "trace s' = trace s @ pre @
          [Debug_moving d, Motor (fst (motor_value s d)) (snd (motor_value s d))]" and
    p: "pre = (case current_direction s of
                 None \<Rightarrow> []
               | Some c \<Rightarrow>
                   if c = d then []
                   else [Info_duration c (clk (time_calls s) - the (direction_start_time s))])"
    by blast
  have "motor_commands pre = []"
    by (simp add: p split: option.splits)
  with m t show ?thesis
    by (simp add: returns_def new_effects_def final_state_def motor_commands_append)
qed

subsection \<open>The motor command of each direction\<close>

text \<open>
  Claim C5. In every object that satisfies the invariant of the direction fields, with
  \<open>L = leftmotorspeed\<close> and \<open>R = rightmotorspeed\<close>, a call of \<open>move\<close> returns and
  emits exactly one motor command: \<open>(-L, -R)\<close> for forward, \<open>(L, R)\<close> for backward,
  \<open>(-L, R)\<close> for left, \<open>(L, -R)\<close> for right, \<open>(1, -1)\<close> for sharp\_left,
  \<open>(-1, 1)\<close> for sharp\_right and \<open>(0, 0)\<close> for stop. In the initial object built
  from the default configuration, forward emits \<open>(-0.5, -0.51)\<close>.
\<close>

theorem move_emits_direction_table:
  assumes "timestamp_ok s" and "L = leftmotorspeed s" and "R = rightmotorspeed s"
  shows "returns (move clk ''forward'' s) \<and>
         motor_commands (new_effects s (move clk ''forward'' s)) = [(- L, - R)] \<and>
         returns (move clk ''backward'' s) \<and>
         motor_commands (new_effects s (move clk ''backward'' s)) = [(L, R)] \<and>
         returns (move clk ''left'' s) \<and>
         motor_commands (new_effects s (move clk ''left'' s)) = [(- L, R)] \<and>
         returns (move clk ''right'' s) \<and>
         motor_commands (new_effects s (move clk ''right'' s)) = [(L, - R)] \<and>
         returns (move clk ''sharp_left'' s) \<and>
         motor_commands (new_effects s (move clk ''sharp_left'' s)) = [(1, - 1)] \<and>
         returns (move clk ''sharp_right'' s) \<and>
         motor_commands (new_effects s (move clk ''sharp_right'' s)) = [(- 1, 1)] \<and>
         returns (move clk ''stop'' s) \<and>
         motor_commands (new_effects s (move clk ''stop'' s)) = [(0, 0)] \<and>
         motor_commands (new_effects (init default_config)
           (move clk ''forward'' (init default_config))) = [(- 0.5, - 0.51)]"
proof -
  have "motor_value (init default_config) ''forward'' = (- 0.5, - 0.51)"
    by (simp add: motor_value_table init_def default_config_def)
  with move_motor [OF init_timestamp_ok, of clk "''forward''" default_config]
  have "motor_commands (new_effects (init default_config)
           (move clk ''forward'' (init default_config))) = [(- 0.5, - 0.51)]"
    by simp
  with assms(2,3) move_motor [OF assms(1), of clk] show ?thesis
    by (simp add: motor_value_table)
qed

theorem move_emits_direction_table_witness:
  "timestamp_ok (init default_config) \<and>
   motor_commands (new_effects (init default_config)
     (move clock_steady ''backward'' (init default_config))) = [(0.5, 0.51)] \<and>
   motor_commands (new_effects (init default_config)
     (move clock_steady ''stop'' (init default_config))) = [(0, 0)]"
proof -
  have i: "timestamp_ok (init default_config)"
    by (rule init_timestamp_ok)
  from move_emits_direction_table [OF i refl refl, of clock_steady] i show ?thesis
    by (simp add: init_def default_config_def)
qed

subsection \<open>The joystick and a held button\<close>

lemma move_direction:
  assumes "timestamp_ok s"
  shows "returns (move clk d s) \<and> current_direction (final_state (move clk d s)) = Some d"
  using move_effects [OF assms, of clk d]
  by (auto simp: returns_def final_state_def)

text \<open>
  Claim C1. For an event of the horizontal axis, in every object that satisfies the
  invariant: a value strictly between the two deadzones leaves the object untouched when
  \<open>button_is_held\<close> is true, and is exactly \<open>move("stop")\<close>, which sets the
  direction to stop, when it is false; a value at or above the high deadzone sets the
  direction to right, and a value at or below the low deadzone (and below the high one)
  sets it to left, whatever \<open>button_is_held\<close> is.
\<close>

theorem axis_center_yields_to_held_button:
  assumes "timestamp_ok s" and "ev_code e = ABS_X"
  shows "(LOW_DEADZONE s < ev_value e \<and> ev_value e < HIGH_DEADZONE s \<longrightarrow>
            handle_abs_event clk e True s = Inr s \<and>
            handle_abs_event clk e False s = move clk ''stop'' s \<and>
            returns (handle_abs_event clk e False s) \<and>
            current_direction (final_state (handle_abs_event clk e False s)) = Some ''stop'') \<and>
         (HIGH_DEADZONE s \<le> ev_value e \<longrightarrow>
            returns (handle_abs_event clk e held s) \<and>
            current_direction (final_state (handle_abs_event clk e held s)) = Some ''right'') \<and>
         (ev_value e < HIGH_DEADZONE s \<and> ev_value e \<le> LOW_DEADZONE s \<longrightarrow>
            returns (handle_abs_event clk e held s) \<and>
            current_direction (final_state (handle_abs_event clk e held s)) = Some ''left'')"
  using assms(2) move_direction [OF assms(1), of clk]
  by (simp add: handle_abs_event_def)

theorem axis_center_yields_to_held_button_witness:
  "timestamp_ok (init default_config) \<and> ev_code (axis_x 125) = ABS_X \<and>
   handle_abs_event clock_steady (axis_x 125) True (init default_config) =
     Inr (init default_config) \<and>
   current_direction (final_state
     (handle_abs_event clock_steady (axis_x 125) False (init default_config))) = Some ''stop'' \<and>
   current_direction (final_state
     (handle_abs_event clock_steady (axis_x 200) True (init default_config))) = Some ''right'' \<and>
   current_direction (final_state
     (handle_abs_event clock_steady (axis_x 100) True (init default_config))) = Some ''left''"
proof -
  have i: "timestamp_ok (init default_config)"
    by (rule init_timestamp_ok)
  have c: "ev_code (axis_x v) = ABS_X" for v
    by (simp add: axis_x_def)
  have v: "ev_value (axis_x v) = v" for v
    by (simp add: axis_x_def)
  have d: "HIGH_DEADZONE (init default_config) = 150" "LOW_DEADZONE (init default_config) = 100"
    by (simp_all add: init_def default_config_def)
  have "LOW_DEADZONE (init default_config) < ev_value (axis_x 125) \<and>
        ev_value (axis_x 125) < HIGH_DEADZONE (init default_config)"
    by (simp add: v d)
  with axis_center_yields_to_held_button [OF i c, of 125 clock_steady True]
  have centre: "handle_abs_event clock_steady (axis_x 125) True (init default_config) =
       Inr (init default_config) \<and>
     current_direction (final_state
       (handle_abs_event clock_steady (axis_x 125) False (init default_config))) = Some ''stop''"
    by blast
  have "HIGH_DEADZONE (init default_config) \<le> ev_value (axis_x 200)"
    by (simp add: v d)
  with axis_center_yields_to_held_button [OF i c, of 200 clock_steady True]
  have right: "current_direction (final_state
       (handle_abs_event clock_steady (axis_x 200) True (init default_config))) = Some ''right''"
    by blast
  have "ev_value (axis_x 100) < HIGH_DEADZONE (init default_config) \<and>
        ev_value (axis_x 100) \<le> LOW_DEADZONE (init default_config)"
    by (simp add: v d)
  with axis_center_yields_to_held_button [OF i c, of 100 clock_steady True]
  have left: "current_direction (final_state
       (handle_abs_event clock_steady (axis_x 100) True (init default_config))) = Some ''left''"
    by blast
  from i c [of 125] centre right left show ?thesis
    by blast
qed

subsection \<open>The triangle button\<close>

text \<open>
  Claim C2, as amended. For a key event with the code of the triangle button,
  \<open>handle_key_event\<close> raises \<open>KeyboardInterrupt\<close> on the release (value 0) and
  leaves the object as it is; on the press (value 1) it returns \<open>True\<close> and on any
  other value the flag it was given, with the object unchanged.
\<close>

theorem triangle_exits_on_release:
  assumes "ev_code e = key_map ''triangle''"
  shows "(ev_value e = BUTTON_RELEASE \<longrightarrow>
            handle_key_event clk e held s = Inl (KeyboardInterrupt, s)) \<and>
         (ev_value e = BUTTON_PRESS \<longrightarrow> handle_key_event clk e held s = Inr (True, s)) \<and>
         (ev_value e \<noteq> BUTTON_RELEASE \<and> ev_value e \<noteq> BUTTON_PRESS \<longrightarrow>
            handle_key_event clk e held s = Inr (held, s))"
  using assms
  by (simp add: handle_key_event_def key_map_codes BUTTON_PRESS_def BUTTON_RELEASE_def)

theorem triangle_exits_on_release_witness:
  "ev_code (key_release 307) = key_map ''triangle'' \<and>
   returns (handle_key_event clock_steady (key_release 307) False (init default_config)) = False"
proof -
  have c: "ev_code (key_release 307) = key_map ''triangle''"
    by (simp add: key_release_def key_map_codes)
  have v: "ev_value (key_release 307) = BUTTON_RELEASE"
    by (simp add: key_release_def)
  from triangle_exits_on_release [OF c, of clock_steady False "init default_config"] c v
  show ?thesis
    by (simp add: returns_def)
qed

text \<open>
  The claim as written puts the exit on the press: the press of the triangle returns
  normally, the release raises.
\<close>

theorem triangle_press_counterexample:
  "handle_key_event clock_steady (key_press 307) False (init default_config) =
     Inr (True, init default_config) \<and>
   handle_key_event clock_steady (key_release 307) True (init default_config) =
     Inl (KeyboardInterrupt, init default_config)"
  by (simp add: handle_key_event_def key_press_def key_release_def key_map_codes
      BUTTON_PRESS_def BUTTON_RELEASE_def)

subsection \<open>The spin\<close>

lemma timestamp_ok_emit: "timestamp_ok (emit out s) = timestamp_ok s"
  by (simp add: timestamp_ok_def emit_def split: option.splits)

lemma move_well_formed:
  assumes "well_formed s"
  shows "\<exists>s'. move clk d s = Inr s' \<and> well_formed s'"
  using assms move_effects [of s clk d]
  by (auto simp: well_formed_def flags_present_def)

lemma spin_effects:
  assumes "timestamp_ok s"
  shows "\<exists>s' pre mid. spin clk d s = Inr s' \<and>
           trace s' = trace s @ pre @
             [Motor (fst (motor_value s (''sharp_'' @ d))) (snd (motor_value s (''sharp_'' @ d))),
              Sleep 1] @ mid @ [Motor 0 0] \<and>
           commands pre = [] \<and> commands mid = [] \<and>
           current_direction s' = Some ''stop'' \<and> timestamp_ok s' \<and>
           leftmotorspeed s' = leftmotorspeed s \<and> rightmotorspeed s' = rightmotorspeed s \<and>
           variable_speed_map s' = variable_speed_map s"
proof -
  let ?s0 = "emit (Info_spinning d) s"
  let ?sd = "''sharp_'' @ d"
  have ok0: "timestamp_ok ?s0"
    using assms by (simp add: timestamp_ok_emit)
  from move_effects [OF ok0, of clk ?sd] obtain s1 pre1 where
    m1: "move clk ?sd ?s0 = Inr s1" and
    t1: "trace s1 = trace ?s0 @ pre1 @
           [Debug_moving ?sd, Motor (fst (motor_value ?s0 ?sd)) (snd (motor_value ?s0 ?sd))]" and
    p1: "pre1 = (case current_direction ?s0 of
                   None \<Rightarrow> []
                 | Some c \<Rightarrow>
                     if c = ?sd then []
                     else [Info_duration c
                             (clk (time_calls ?s0) - the (direction_start_time ?s0))])" and
    ok1: "timestamp_ok s1" and
    f1: "leftmotorspeed s1 = leftmotorspeed ?s0" "rightmotorspeed s1 = rightmotorspeed ?s0"
        "variable_speed_map s1 = variable_speed_map ?s0"
    by blast
  let ?s2 = "emit (Sleep 1) s1"
  have ok2: "timestamp_ok ?s2"
    using ok1 by (simp add: timestamp_ok_emit)
  from move_effects [OF ok2, of clk "''stop''"] obtain s3 pre3 where
    m3: "move clk ''stop'' ?s2 = Inr s3" and
    t3: "trace s3 = trace ?s2 @ pre3 @
           [Debug_moving ''stop'', Motor (fst (motor_value ?s2 ''stop''))
              (snd (motor_value ?s2 ''stop''))]" and
    p3: "pre3 = (case current_direction ?s2 of
                   None \<Rightarrow> []
                 | Some c \<Rightarrow>
                     if c = ''stop'' then []
                     else [Info_duration c
                             (clk (time_calls ?s2) - the (direction_start_time ?s2))])" and
    d3: "current_direction s3 = Some ''stop''" and
    ok3: "timestamp_ok s3" and
    f3: "leftmotorspeed s3 = leftmotorspeed ?s2" "rightmotorspeed s3 = rightmotorspeed ?s2"
        "variable_speed_map s3 = variable_speed_map ?s2"
    by blast
  have c1: "commands pre1 = []"
    by (simp add: p1 split: option.splits)
  have c3: "commands pre3 = []"
    by (simp add: p3 split: option.splits)
  have mv: "motor_value ?s0 ?sd = motor_value s ?sd"
    by (simp add: motor_value_def directions_def emit_def)
  have sp: "spin clk d s = Inr s3"
    using m1 m3 by (simp add: spin_def)
  have tr: "trace s3 = trace s @ ([Info_spinning d] @ pre1 @ [Debug_moving ?sd]) @
             [Motor (fst (motor_value s ?sd)) (snd (motor_value s ?sd)), Sleep 1] @
             (pre3 @ [Debug_moving ''stop'']) @ [Motor 0 0]"
    using t3 t1 mv by (simp add: emit_def motor_value_table)
  have cp: "commands ([Info_spinning d] @ pre1 @ [Debug_moving ?sd]) = []"
    by (simp add: commands_append c1)
  have cm: "commands (pre3 @ [Debug_moving ''stop'']) = []"
    by (simp add: commands_append c3)
  from f1 f3 have fr: "leftmotorspeed s3 = leftmotorspeed s \<and>
      rightmotorspeed s3 = rightmotorspeed s \<and> variable_speed_map s3 = variable_speed_map s"
    by (simp add: emit_def)
  from sp tr cp cm d3 ok3 fr show ?thesis
    by blast
qed

lemma spin_commands:
  assumes "timestamp_ok s"
  shows "returns (spin clk d s) \<and>
         commands (new_effects s (spin clk d s)) =
           [Motor (fst (motor_value s (''sharp_'' @ d))) (snd (motor_value s (''sharp_'' @ d))),
            Sleep 1, Motor 0 0]"
proof -
  from spin_effects [OF assms, of clk d] obtain s' pre mid where
    sp: "spin clk d s = Inr s'" and
    tr: "trace s' = trace s @ pre @
             [Motor (fst (motor_value s (''sharp_'' @ d))) (snd (motor_value s (''sharp_'' @ d))),
              Sleep 1] @ mid @ [Motor 0 0]" and
    c: "commands pre = []" "commands mid = []"
    by blast
  from sp tr c show ?thesis
    by (simp add: returns_def new_effects_def final_state_def commands_append)
qed

lemma spin_well_formed:
  assumes "well_formed s"
  shows "\<exists>s'. spin clk d s = Inr s' \<and> well_formed s'"
  using assms spin_effects [of s clk d]
  by (auto simp: well_formed_def flags_present_def)


text \<open>
  Claim C8. In every object that satisfies the invariant, \<open>spin\<close> returns and the
  commands it emits are exactly the sharp turn, a sleep of 1, and stop: \<open>(-1, 1)\<close>
  first for right, \<open>(1, -1)\<close> first for left, then \<open>time.sleep(1)\<close>, then
  \<open>(0, 0)\<close>, with no other motor command between them. The release of the right
  trigger runs the right spin and the release of the left trigger the left one.
\<close>

theorem spin_two_commands:
  assumes "timestamp_ok s"
  shows "returns (spin clk ''right'' s) \<and>
         commands (new_effects s (spin clk ''right'' s)) = [Motor (- 1) 1, Sleep 1, Motor 0 0] \<and>
         returns (spin clk ''left'' s) \<and>
         commands (new_effects s (spin clk ''left'' s)) = [Motor 1 (- 1), Sleep 1, Motor 0 0] \<and>
         (ev_value e = BUTTON_RELEASE \<and> ev_code e = key_map ''rt'' \<longrightarrow>
            returns (handle_key_event clk e held s) \<and>
            commands (new_effects s (without_value (handle_key_event clk e held s))) =
              [Motor (- 1) 1, Sleep 1, Motor 0 0]) \<and>
         (ev_value e = BUTTON_RELEASE \<and> ev_code e = key_map ''lt'' \<longrightarrow>
            returns (handle_key_event clk e held s) \<and>
            commands (new_effects s (without_value (handle_key_event clk e held s))) =
              [Motor 1 (- 1), Sleep 1, Motor 0 0])"
proof -
  have r: "returns (spin clk ''right'' s) \<and>
      commands (new_effects s (spin clk ''right'' s)) = [Motor (- 1) 1, Sleep 1, Motor 0 0]"
    using spin_commands [OF assms, of clk "''right''"] by (simp add: motor_value_table)
  have l: "returns (spin clk ''left'' s) \<and>
      commands (new_effects s (spin clk ''left'' s)) = [Motor 1 (- 1), Sleep 1, Motor 0 0]"
    using spin_commands [OF assms, of clk "''left''"] by (simp add: motor_value_table)
  have w: "returns (returning v res) = returns res \<and> without_value (returning v res) = res"
    for v :: bool and res
    by (simp add: returns_def returning_def without_value_def split: sum.splits)
  have kr: "ev_value e = BUTTON_RELEASE \<and> ev_code e = key_map ''rt'' \<longrightarrow>
      handle_key_event clk e held s = returning False (spin clk ''right'' s)"
    by (simp add: handle_key_event_def key_map_codes BUTTON_PRESS_def BUTTON_RELEASE_def)
  have kl: "ev_value e = BUTTON_RELEASE \<and> ev_code e = key_map ''lt'' \<longrightarrow>
      handle_key_event clk e held s = returning False (spin clk ''left'' s)"
    by (simp add: handle_key_event_def key_map_codes BUTTON_PRESS_def BUTTON_RELEASE_def)
  from r l kr kl w show ?thesis
    by simp
qed

theorem spin_two_commands_witness:
  "timestamp_ok (init default_config) \<and>
   commands (trace (final_state (without_value
     (handle_key_event clock_steady (key_release 313) False (init default_config))))) =
   [Motor (- 1) 1, Sleep 1, Motor 0 0]"
proof -
  have i: "timestamp_ok (init default_config)"
    by (rule init_timestamp_ok)
  have e: "ev_value (key_release 313) = BUTTON_RELEASE \<and>
           ev_code (key_release 313) = key_map ''rt''"
    by (simp add: key_release_def key_map_codes)
  have n: "new_effects (init default_config) res = trace (final_state res)" for res
    by (simp add: new_effects_def init_def)
  from spin_two_commands [OF i, of clock_steady "key_release 313" False] e
  have "commands (new_effects (init default_config) (without_value
     (handle_key_event clock_steady (key_release 313) False (init default_config)))) =
   [Motor (- 1) 1, Sleep 1, Motor 0 0]"
    by blast
  with i show ?thesis
    by (simp add: n)
qed

subsection \<open>Toggling the speed tiers\<close>

lemma modify_speed_helper_returns:
  assumes "variable_speed_map s t = Some v"
  shows "returns (modify_speed_helper t s)"
    and "trace (final_state (modify_speed_helper t s)) = trace s"
    and "current_direction (final_state (modify_speed_helper t s)) = current_direction s"
    and "direction_start_time (final_state (modify_speed_helper t s)) = direction_start_time s"
    and "variable_speed_map (final_state (modify_speed_helper t s)) =
           (variable_speed_map s)(t \<mapsto> (if v = 0 then 1 else 0))"
    and "NORMAL (final_state (modify_speed_helper t s)) = NORMAL s"
  using assms
  by (simp_all add: modify_speed_helper_def Let_def returns_def final_state_def)

lemma modify_speed_helper_raises:
  assumes "variable_speed_map s t = None"
  shows "modify_speed_helper t s = Inl (KeyError, s)"
  using assms by (simp add: modify_speed_helper_def)

lemma modify_speed_helper_well_formed:
  assumes "well_formed s"
  shows "well_formed (final_state (modify_speed_helper t s)) \<and>
         (\<forall>s'. modify_speed_helper t s \<noteq> Inl (TypeError, s'))"
proof (cases "variable_speed_map s t")
  case None
  with assms show ?thesis
    by (simp add: modify_speed_helper_raises final_state_def)
next
  case (Some v)
  from modify_speed_helper_returns [OF Some] assms show ?thesis
    by (auto simp: well_formed_def flags_present_def timestamp_ok_def returns_def
        split: option.splits)
qed

lemma well_formed_emit: "well_formed (emit out s) = well_formed s"
  by (simp add: well_formed_def timestamp_ok_emit) (simp add: flags_present_def emit_def)

lemma returns_final_state: "returns res \<Longrightarrow> res = Inr (final_state res)"
  by (cases res) (simp_all add: returns_def final_state_def)

lemma modify_speed_well_formed:
  assumes "well_formed s"
  shows "\<exists>s'. modify_speed c s = Inr s' \<and> well_formed s'"
proof -
  have "\<exists>s'. modify_speed_helper t s = Inr s' \<and> well_formed s'"
    if "t = ''slow'' \<or> t = ''fast'' \<or> t = ''super''" for t
  proof -
    from that assms obtain v where "variable_speed_map s t = Some v"
      by (auto simp: well_formed_def flags_present_def)
    from modify_speed_helper_returns(1) [OF this] modify_speed_helper_well_formed [OF assms, of t]
    show ?thesis
      using returns_final_state by blast
  qed
  from this [of "''slow''"] this [of "''fast''"] this [of "''super''"] assms show ?thesis
    by (auto simp: modify_speed_def well_formed_emit)
qed

lemma modify_speed_helper_on:
  assumes "t = ''slow'' \<or> t = ''fast'' \<or> t = ''super''" and "variable_speed_map s t = Some 0"
  shows "modify_speed_helper t s =
           Inr (s\<lparr>leftmotorspeed := magnitude s t, rightmotorspeed := magnitude s t + 0.01,
                  variable_speed_map := (variable_speed_map s)(t \<mapsto> 1)\<rparr>)"
  using assms by (auto simp: modify_speed_helper_def magnitude_def)

lemma modify_speed_helper_off:
  assumes "variable_speed_map s t = Some v" and "v \<noteq> 0"
  shows "modify_speed_helper t s =
           Inr (s\<lparr>leftmotorspeed := NORMAL s, rightmotorspeed := NORMAL s + 0.01,
                  variable_speed_map := (variable_speed_map s)(t \<mapsto> 0)\<rparr>)"
  using assms by (simp add: modify_speed_helper_def)

lemma toggles_append:
  "toggles (xs @ ys) s =
     (case toggles xs s of Inl err \<Rightarrow> Inl err | Inr s1 \<Rightarrow> toggles ys s1)"
  by (induction xs arbitrary: s) (simp_all split: sum.splits)

lemma toggles_others:
  assumes "t \<notin> set ts" and "\<forall>k \<in> set ts. variable_speed_map s k \<noteq> None"
  shows "\<exists>s'. toggles ts s = Inr s' \<and> variable_speed_map s' t = variable_speed_map s t \<and>
              NORMAL s' = NORMAL s"
  using assms
proof (induction ts arbitrary: s)
  case Nil
  then show ?case by simp
next
  case (Cons k ts)
  from Cons.prems obtain v where v: "variable_speed_map s k = Some v"
    by auto
  from modify_speed_helper_returns(1) [OF v] obtain s1 where
    r: "modify_speed_helper k s = Inr s1"
    using returns_final_state by blast
  from modify_speed_helper_returns(5,6) [OF v] r
  have vm: "variable_speed_map s1 = (variable_speed_map s)(k \<mapsto> (if v = 0 then 1 else 0))"
    and n: "NORMAL s1 = NORMAL s"
    by (simp_all add: final_state_def)
  from Cons.prems vm have "t \<notin> set ts" "\<forall>j \<in> set ts. variable_speed_map s1 j \<noteq> None"
    by auto
  from Cons.IH [OF this] obtain s' where
    "toggles ts s1 = Inr s'" "variable_speed_map s' t = variable_speed_map s1 t"
    "NORMAL s' = NORMAL s1"
    by blast
  with r vm n Cons.prems(1) show ?case
    by simp
qed

text \<open>
  Claim C4. For each of the tiers slow, fast and super and every object: when the flag
  of the tier is 0, \<open>modify_speed_helper\<close> sets the speed pair to the magnitude of the
  tier and the magnitude plus 0.01 and sets the flag to 1; when the flag is not 0, it sets
  the pair to \<open>NORMAL\<close> and \<open>NORMAL + 0.01\<close> and sets the flag to 0; nothing else
  of the object changes, and the other flags are not read. Hence toggling a tier on, then
  any toggles of other tiers, then the tier again, leaves the pair at \<open>NORMAL\<close> and
  \<open>NORMAL + 0.01\<close>.
\<close>

theorem toggle_speed_tier:
  assumes "t = ''slow'' \<or> t = ''fast'' \<or> t = ''super''"
  shows "(variable_speed_map s t = Some 0 \<longrightarrow>
            modify_speed_helper t s =
              Inr (s\<lparr>leftmotorspeed := magnitude s t, rightmotorspeed := magnitude s t + 0.01,
                     variable_speed_map := (variable_speed_map s)(t \<mapsto> 1)\<rparr>)) \<and>
         (\<forall>v. variable_speed_map s t = Some v \<and> v \<noteq> 0 \<longrightarrow>
            modify_speed_helper t s =
              Inr (s\<lparr>leftmotorspeed := NORMAL s, rightmotorspeed := NORMAL s + 0.01,
                     variable_speed_map := (variable_speed_map s)(t \<mapsto> 0)\<rparr>)) \<and>
         (variable_speed_map s t = Some 0 \<and> t \<notin> set others \<and>
          (\<forall>k \<in> set others. variable_speed_map s k \<noteq> None) \<longrightarrow>
            returns (toggles (t # others @ [t]) s) \<and>
            leftmotorspeed (final_state (toggles (t # others @ [t]) s)) = NORMAL s \<and>
            rightmotorspeed (final_state (toggles (t # others @ [t]) s)) = NORMAL s + 0.01 \<and>
            variable_speed_map (final_state (toggles (t # others @ [t]) s)) t = Some 0)"
proof -
  have third: "returns (toggles (t # others @ [t]) s) \<and>
      leftmotorspeed (final_state (toggles (t # others @ [t]) s)) = NORMAL s \<and>
      rightmotorspeed (final_state (toggles (t # others @ [t]) s)) = NORMAL s + 0.01 \<and>
      variable_speed_map (final_state (toggles (t # others @ [t]) s)) t = Some 0"
    if off: "variable_speed_map s t = Some 0" and nt: "t \<notin> set others"
      and keys: "\<forall>k \<in> set others. variable_speed_map s k \<noteq> None"
  proof -
    let ?s1 = "s\<lparr>leftmotorspeed := magnitude s t, rightmotorspeed := magnitude s t + 0.01,
                  variable_speed_map := (variable_speed_map s)(t \<mapsto> 1)\<rparr>"
    have on: "modify_speed_helper t s = Inr ?s1"
      by (rule modify_speed_helper_on [OF assms off])
    from keys have "\<forall>k \<in> set others. variable_speed_map ?s1 k \<noteq> None"
      by simp
    from toggles_others [OF nt this] obtain s2 where
      s2: "toggles others ?s1 = Inr s2" "variable_speed_map s2 t = Some 1" "NORMAL s2 = NORMAL s"
      by auto
    from modify_speed_helper_off [OF s2(2)] s2(3)
    have "modify_speed_helper t s2 =
           Inr (s2\<lparr>leftmotorspeed := NORMAL s, rightmotorspeed := NORMAL s + 0.01,
                  variable_speed_map := (variable_speed_map s2)(t \<mapsto> 0)\<rparr>)"
      by simp
    with on s2(1) show ?thesis
      by (simp add: toggles_append returns_def final_state_def)
  qed
  from modify_speed_helper_on [OF assms] modify_speed_helper_off third show ?thesis
    by blast
qed

theorem toggle_speed_tier_witness:
  "variable_speed_map (init default_config) ''fast'' = Some 0 \<and>
   ''fast'' \<notin> set [''slow'', ''super'', ''slow''] \<and>
   leftmotorspeed (final_state
     (toggles [''fast'', ''slow'', ''super'', ''slow'', ''fast''] (init default_config))) = 0.5 \<and>
   rightmotorspeed (final_state
     (toggles [''fast'', ''slow'', ''super'', ''slow'', ''fast''] (init default_config))) = 0.51 \<and>
   leftmotorspeed (final_state (modify_speed_helper ''fast'' (init default_config))) = 0.75 \<and>
   rightmotorspeed (final_state (modify_speed_helper ''fast'' (init default_config))) = 0.76"
proof -
  have f: "''fast'' = ''slow'' \<or> ''fast'' = ''fast'' \<or> ''fast'' = ''super''"
    by simp
  have off: "variable_speed_map (init default_config) ''fast'' = Some 0"
    by (simp add: init_def)
  have nt: "''fast'' \<notin> set [''slow'', ''super'', ''slow'']"
    by simp
  have keys: "\<forall>k \<in> set [''slow'', ''super'', ''slow''].
      variable_speed_map (init default_config) k \<noteq> None"
    by (simp add: init_def)
  have n: "NORMAL (init default_config) = 0.5" "magnitude (init default_config) ''fast'' = 0.75"
    by (simp_all add: init_def default_config_def magnitude_def)
  from toggle_speed_tier [OF f, of "init default_config" "[''slow'', ''super'', ''slow'']"]
    off nt keys
  have a: "leftmotorspeed (final_state (toggles (''fast'' # [''slow'', ''super'', ''slow''] @
         [''fast'']) (init default_config))) = NORMAL (init default_config) \<and>
     rightmotorspeed (final_state (toggles (''fast'' # [''slow'', ''super'', ''slow''] @
         [''fast'']) (init default_config))) = NORMAL (init default_config) + 0.01"
    by blast
  from toggle_speed_tier [OF f, of "init default_config" "[''slow'', ''super'', ''slow'']"] off
  have b: "modify_speed_helper ''fast'' (init default_config) =
       Inr ((init default_config)\<lparr>leftmotorspeed := magnitude (init default_config) ''fast'',
         rightmotorspeed := magnitude (init default_config) ''fast'' + 0.01,
         variable_speed_map := (variable_speed_map (init default_config))(''fast'' \<mapsto> 1)\<rparr>)"
    by blast
  have c: "leftmotorspeed (final_state (modify_speed_helper ''fast'' (init default_config))) =
       0.75 \<and>
     rightmotorspeed (final_state (modify_speed_helper ''fast'' (init default_config))) = 0.76"
    by (simp add: b n final_state_def)
  from a have "leftmotorspeed (final_state
     (toggles [''fast'', ''slow'', ''super'', ''slow'', ''fast''] (init default_config))) = 0.5 \<and>
   rightmotorspeed (final_state
     (toggles [''fast'', ''slow'', ''super'', ''slow'', ''fast''] (init default_config))) = 0.51"
    by (simp add: n)
  with off nt c show ?thesis
    by blast
qed

subsection \<open>The flag \<open>button_is_held\<close>\<close>

lemma handle_key_event_cases:
  assumes "well_formed s"
  shows "(ev_value e = BUTTON_RELEASE \<and> ev_code e = key_map ''triangle'' \<longrightarrow>
            handle_key_event clk e held s = Inl (KeyboardInterrupt, s)) \<and>
         (\<not> (ev_value e = BUTTON_RELEASE \<and> ev_code e = key_map ''triangle'') \<longrightarrow>
            (\<exists>s'. handle_key_event clk e held s =
                    Inr (if ev_value e = BUTTON_PRESS then True
                         else if ev_value e = BUTTON_RELEASE then False else held, s') \<and>
                  well_formed s'))"
proof -
  have m: "\<exists>s'. returning v (move clk d s) = Inr (v, s') \<and> well_formed s'" for v :: bool and d
    using move_well_formed [OF assms, of clk d] by (auto simp: returning_def)
  have sp: "\<exists>s'. returning v (spin clk d s) = Inr (v, s') \<and> well_formed s'" for v :: bool and d
    using spin_well_formed [OF assms, of clk d] by (auto simp: returning_def)
  have ms: "\<exists>s'. returning v (modify_speed c s) = Inr (v, s') \<and> well_formed s'"
    for v :: bool and c
    using modify_speed_well_formed [OF assms, of c] by (auto simp: returning_def)
  from m sp ms assms show ?thesis
    by (simp add: handle_key_event_def key_map_codes BUTTON_PRESS_def BUTTON_RELEASE_def)
qed

text \<open>
  Claim C6, as amended. In every well-formed object, the flag that
  \<open>handle_key_event\<close> returns is true after the press (value 1) of any button, false
  after the release (value 0) of any button except the triangle, whose release raises
  instead of returning, and the flag it was given after any other value.
\<close>

theorem button_is_held_follows_any_key:
  assumes "well_formed s"
  shows "returned_value (handle_key_event clk e held s) =
           (if ev_value e = BUTTON_RELEASE \<and> ev_code e = key_map ''triangle'' then None
            else if ev_value e = BUTTON_PRESS then Some True
            else if ev_value e = BUTTON_RELEASE then Some False
            else Some held)"
  using handle_key_event_cases [OF assms, of e clk held]
  by (auto simp: returned_value_def)

theorem button_is_held_follows_any_key_witness:
  "well_formed (init default_config) \<and>
   returned_value (handle_key_event clock_steady (key_press 311) False (init default_config)) =
     Some True \<and>
   returned_value (handle_key_event clock_steady (key_release 311) True (init default_config)) =
     Some False"
proof -
  have i: "well_formed (init default_config)"
    by (rule init_well_formed)
  from button_is_held_follows_any_key [OF i, of clock_steady "key_press 311" False]
    button_is_held_follows_any_key [OF i, of clock_steady "key_release 311" True] i
  show ?thesis
    by (simp add: key_press_def key_release_def key_map_codes BUTTON_PRESS_def
        BUTTON_RELEASE_def)
qed

text \<open>
  The claim as written lets only the bumpers change the flag: the press of the square
  button sets it, and the release of the square button clears it while it is set.
\<close>

theorem other_button_changes_button_is_held_counterexample:
  "returned_value (handle_key_event clock_steady (key_press 308) False (init default_config)) =
     Some True \<and>
   returned_value (handle_key_event clock_steady (key_release 308) True (init default_config)) =
     Some False"
  by (simp add: returned_value_def handle_key_event_def key_press_def key_release_def
      key_map_codes BUTTON_PRESS_def BUTTON_RELEASE_def returning_def modify_speed_def
      modify_speed_helper_def init_def)

subsection \<open>Leaving the session loop\<close>

lemma handle_abs_event_well_formed:
  assumes "well_formed s"
  shows "\<exists>s'. handle_abs_event clk e held s = Inr s' \<and> well_formed s'"
  using assms move_well_formed [OF assms, of clk]
  by (simp add: handle_abs_event_def)

lemma read_loop_well_formed:
  assumes "well_formed s"
  shows "(\<exists>s'. read_loop clk source held s = Inr s' \<and> well_formed s') \<or>
         (\<exists>err s'. read_loop clk source held s = Inl (err, s') \<and> well_formed s' \<and>
                   (err = KeyboardInterrupt \<or> err = OSError \<and> Read_fails \<in> set source))"
  using assms
proof (induction source arbitrary: held s)
  case Nil
  then show ?case by simp
next
  case (Cons r rest)
  show ?case
  proof (cases r)
    case Read_fails
    with Cons.prems show ?thesis by simp
  next
    case (Yield event)
    consider (key) "ev_type event = EV_KEY"
      | (abs) "ev_type event \<noteq> EV_KEY" "ev_type event = EV_ABS"
      | (other) "ev_type event \<noteq> EV_KEY" "ev_type event \<noteq> EV_ABS"
      by blast
    then show ?thesis
    proof cases
      case key
      show ?thesis
      proof (cases "ev_value event = BUTTON_RELEASE \<and> ev_code event = key_map ''triangle''")
        case True
        with handle_key_event_cases [OF Cons.prems, of event clk held] Yield key Cons.prems
        show ?thesis by simp
      next
        case False
        with handle_key_event_cases [OF Cons.prems, of event clk held] obtain h s1 where
          k: "handle_key_event clk event held s = Inr (h, s1)" and w: "well_formed s1"
          by blast
        from Cons.IH [OF w, of h] Yield key k show ?thesis
          by simp
      qed
    next
      case abs
      from handle_abs_event_well_formed [OF Cons.prems, of clk event held] obtain s1 where
        a: "handle_abs_event clk event held s = Inr s1" and w: "well_formed s1"
        by blast
      from Cons.IH [OF w, of held] Yield abs a show ?thesis
        by simp
    next
      case other
      from Cons.IH [OF Cons.prems, of held] Yield other show ?thesis
        by simp
    qed
  qed
qed

lemma main_after_raise:
  assumes "well_formed s" and "read_loop clk source False s = Inl (err, s1)"
  shows "\<exists>s2 before. move clk ''stop'' s1 = Inr s2 \<and>
           main clk source s =
             Inr (emit (if err = KeyboardInterrupt then Info_terminated
                        else Error_main_loop err) s2) \<and>
           trace s2 = before @ [Debug_moving ''stop'', Motor 0 0]"
proof -
  from read_loop_well_formed [OF assms(1), of clk source False] assms(2)
  have "well_formed s1" by auto
  then have "timestamp_ok s1" by (simp add: well_formed_def)
  from move_effects [OF this, of clk "''stop''"] obtain s2 pre where
    m: "move clk ''stop'' s1 = Inr s2" and
    t: "trace s2 = trace s1 @ pre @ [Debug_moving ''stop'',
          Motor (fst (motor_value s1 ''stop'')) (snd (motor_value s1 ''stop''))]"
    by blast
  from t have "trace s2 = (trace s1 @ pre) @ [Debug_moving ''stop'', Motor 0 0]"
    by (simp add: motor_value_table)
  with m assms(2) show ?thesis
    by (auto simp: main_def)
qed

lemma main_trace_after_raise:
  assumes "well_formed s" and "read_loop clk source False s = Inl (err, s1)"
  shows "returns (main clk source s) \<and>
         (\<exists>before. trace (final_state (main clk source s)) =
            before @ [Debug_moving ''stop'', Motor 0 0,
                      if err = KeyboardInterrupt then Info_terminated else Error_main_loop err])"
  using main_after_raise [OF assms]
  by (auto simp: returns_def final_state_def emit_def)

text \<open>
  Claim C3. Started on a well-formed object, whenever the loop of \<open>main\<close> ends with
  an exception (the \<open>KeyboardInterrupt\<close> of the exit button or any other error),
  \<open>main\<close> returns, and the last motor command of the trace is \<open>(0, 0)\<close>: the trace
  ends with the debug record of \<open>move("stop")\<close>, the command \<open>(0, 0)\<close> and the one
  log record of the handler.
\<close>

theorem main_stops_motors_on_exit:
  assumes "well_formed s" and "read_loop clk source False s = Inl (err, s1)"
  shows "returns (main clk source s) \<and>
         motor_commands (trace (final_state (main clk source s))) \<noteq> [] \<and>
         last (motor_commands (trace (final_state (main clk source s)))) = (0, 0) \<and>
         (\<exists>before. trace (final_state (main clk source s)) =
            before @ [Debug_moving ''stop'', Motor 0 0,
                      if err = KeyboardInterrupt then Info_terminated else Error_main_loop err])"
proof -
  from main_trace_after_raise [OF assms] obtain before where
    r: "returns (main clk source s)" and
    t: "trace (final_state (main clk source s)) =
            before @ [Debug_moving ''stop'', Motor 0 0,
                      if err = KeyboardInterrupt then Info_terminated else Error_main_loop err]"
    by blast
  have "motor_commands (trace (final_state (main clk source s))) =
          motor_commands before @ [(0, 0)]"
    by (simp add: t motor_commands_append)
  with r t show ?thesis
    by simp
qed

theorem main_stops_motors_on_exit_witness:
  "well_formed (init default_config) \<and>
   read_loop clock_steady [Yield (key_press 311), Yield (key_release 307)] False
     (init default_config) =
     Inl (KeyboardInterrupt, final_state (move clock_steady ''forward'' (init default_config))) \<and>
   returns (main clock_steady [Yield (key_press 311), Yield (key_release 307)]
     (init default_config)) \<and>
   last (motor_commands (trace (final_state
     (main clock_steady [Yield (key_press 311), Yield (key_release 307)]
        (init default_config))))) = (0, 0)"
proof -
  have i: "well_formed (init default_config)"
    by (rule init_well_formed)
  have r: "read_loop clock_steady [Yield (key_press 311), Yield (key_release 307)] False
     (init default_config) =
     Inl (KeyboardInterrupt, final_state (move clock_steady ''forward'' (init default_config)))"
    by (simp add: handle_key_event_def key_press_def key_release_def key_map_codes EV_KEY_def
        BUTTON_PRESS_def BUTTON_RELEASE_def returning_def move_first init_def final_state_def)
  from main_stops_motors_on_exit [OF i r] i r show ?thesis
    by blast
qed


text \<open>
  Claim C7, as amended. Started on a well-formed object, when the loop of \<open>main\<close>
  ends with the \<open>OSError\<close> of a failed read (which only a failed read raises),
  \<open>main\<close> emits the stop command \<open>(0, 0)\<close>, logs the error and returns normally:
  the error does not reach the caller.
\<close>

theorem read_failure_is_logged_and_swallowed:
  assumes "well_formed s" and "read_loop clk source False s = Inl (OSError, s1)"
  shows "Read_fails \<in> set source \<and>
         returns (main clk source s) \<and>
         (\<exists>before. trace (final_state (main clk source s)) =
            before @ [Debug_moving ''stop'', Motor 0 0, Error_main_loop OSError])"
  using main_trace_after_raise [OF assms] read_loop_well_formed [OF assms(1), of clk source False]
    assms(2)
  by auto

theorem read_failure_is_logged_and_swallowed_witness:
  "well_formed (init default_config) \<and>
   read_loop clock_steady [Yield (axis_x 200), Read_fails] False (init default_config) =
     Inl (OSError, final_state (move clock_steady ''right'' (init default_config))) \<and>
   returns (main clock_steady [Yield (axis_x 200), Read_fails] (init default_config))"
proof -
  have i: "well_formed (init default_config)"
    by (rule init_well_formed)
  have r: "read_loop clock_steady [Yield (axis_x 200), Read_fails] False (init default_config) =
     Inl (OSError, final_state (move clock_steady ''right'' (init default_config)))"
    by (simp add: handle_abs_event_def axis_x_def EV_KEY_def EV_ABS_def ABS_X_def
        move_first init_def final_state_def default_config_def)
  from read_failure_is_logged_and_swallowed [OF i r] i r show ?thesis
    by blast
qed

text \<open>
  The claim as written has the error propagate to the caller: on a source whose first
  read fails, \<open>main\<close> returns normally, with the error in the log.
\<close>

theorem read_failure_not_propagated_counterexample:
  "main clock_steady [Read_fails] (init default_config) =
     Inr ((init default_config)\<lparr>current_direction := Some ''stop'',
            direction_start_time := Some 0, time_calls := 1,
            trace := [Debug_moving ''stop'', Motor 0 0, Error_main_loop OSError]\<rparr>)"
  by (simp add: main_def move_first init_def emit_def motor_value_table clock_steady_def)

subsection \<open>The invariant of the direction fields\<close>

lemma call_well_formed:
  assumes "well_formed s"
  shows "well_formed (final_state (call clk op s)) \<and>
         (\<forall>s'. call clk op s \<noteq> Inl (TypeError, s'))"
proof (cases op)
  case (Move d)
  with move_well_formed [OF assms, of clk d] show ?thesis
    by (auto simp: final_state_def)
next
  case (Spin d)
  with spin_well_formed [OF assms, of clk d] show ?thesis
    by (auto simp: final_state_def)
next
  case (Modify_speed c)
  with modify_speed_well_formed [OF assms, of c] show ?thesis
    by (auto simp: final_state_def)
next
  case (Modify_speed_helper t)
  with modify_speed_helper_well_formed [OF assms, of t] show ?thesis
    by simp
next
  case (Key_event e held)
  with handle_key_event_cases [OF assms, of e clk held] assms show ?thesis
    by (cases "ev_value e = BUTTON_RELEASE \<and> ev_code e = key_map ''triangle''")
      (auto simp: final_state_def without_value_def)
next
  case (Abs_event e held)
  with handle_abs_event_well_formed [OF assms, of clk e held] show ?thesis
    by (auto simp: final_state_def)
qed

lemma calls_well_formed:
  assumes "well_formed s"
  shows "well_formed (final_state (calls clk ops s)) \<and>
         (\<forall>s'. calls clk ops s \<noteq> Inl (TypeError, s'))"
  using assms
proof (induction ops arbitrary: s)
  case Nil
  then show ?case by (simp add: final_state_def)
next
  case (Cons op ops)
  show ?case
  proof (cases "call clk op s")
    case (Inl a)
    with call_well_formed [OF Cons.prems, of clk op] show ?thesis
      by (cases a) (auto simp: final_state_def)
  next
    case (Inr s1)
    with call_well_formed [OF Cons.prems, of clk op] have "well_formed s1"
      by (simp add: final_state_def)
    from Cons.IH [OF this] Inr show ?thesis
      by simp
  qed
qed

text \<open>
  Claim C10. After any run of calls of \<open>move\<close>, \<open>spin\<close>, \<open>modify_speed\<close>,
  \<open>modify_speed_helper\<close>, \<open>handle_key_event\<close> and \<open>handle_abs_event\<close> on the
  initial object (a run that ends at the first exception, if there is one), a start time
  is stored whenever a direction is; no call of the run raised \<open>TypeError\<close>, and the next
  \<open>move\<close>, in any direction, returns.
\<close>

theorem start_time_set_whenever_direction_set:
  "timestamp_ok (final_state (calls clk ops (init cfg))) \<and>
   (\<forall>s'. calls clk ops (init cfg) \<noteq> Inl (TypeError, s')) \<and>
   (\<forall>d. returns (move clk d (final_state (calls clk ops (init cfg)))))"
proof -
  from calls_well_formed [OF init_well_formed, of clk ops cfg]
  have w: "well_formed (final_state (calls clk ops (init cfg)))"
    and n: "\<forall>s'. calls clk ops (init cfg) \<noteq> Inl (TypeError, s')"
    by blast+
  from w have t: "timestamp_ok (final_state (calls clk ops (init cfg)))"
    by (simp add: well_formed_def)
  from move_motor [OF t, of clk] t n show ?thesis
    by blast
qed

theorem start_time_set_whenever_direction_set_witness:
  "timestamp_ok (final_state (calls clock_steady
     [Key_event (key_press 311) False, Abs_event (axis_x 200) True, Spin ''left'',
      Modify_speed 304, Move ''backward''] (init default_config))) \<and>
   current_direction (final_state (calls clock_steady
     [Key_event (key_press 311) False, Abs_event (axis_x 200) True, Spin ''left'',
      Modify_speed 304, Move ''backward''] (init default_config))) = Some ''backward''"
proof -
  have "current_direction (final_state (calls clock_steady
     [Key_event (key_press 311) False, Abs_event (axis_x 200) True, Spin ''left'',
      Modify_speed 304, Move ''backward''] (init default_config))) = Some ''backward''"
    by (simp add: handle_key_event_def handle_abs_event_def spin_def modify_speed_def
        modify_speed_helper_def move_def time_time_def emit_def directions_def
        key_press_def axis_x_def key_map_codes BUTTON_PRESS_def BUTTON_RELEASE_def ABS_X_def
        returning_def without_value_def final_state_def init_def default_config_def)
  with start_time_set_whenever_direction_set [of clock_steady
     "[Key_event (key_press 311) False, Abs_event (axis_x 200) True, Spin ''left'',
      Modify_speed 304, Move ''backward'']" default_config]
  show ?thesis
    by blast
qed

subsection \<open>Telemetry on a change of direction\<close>

lemma move_telemetry:
  assumes "timestamp_ok s"
  shows "telemetry (new_effects s (move clk d s)) =
           (case current_direction s of
              None \<Rightarrow> []
            | Some c \<Rightarrow>
                if c = d then []
                else [(c, clk (time_calls s) - the (direction_start_time s))])"
proof -
  from move_effects [OF assms, of clk d] obtain s' pre where
    m: "move clk d s = Inr s'" and
    t: "trace s' = trace s @ pre @
          [Debug_moving d, Motor (fst (motor_value s d)) (snd (motor_value s d))]" and
    p: "pre = (case current_direction s of
                 None \<Rightarrow> []
               | Some c \<Rightarrow>
                   if c = d then []
                   else [Info_duration c (clk (time_calls s) - the (direction_start_time s))])"
    by blast
  from m t have "telemetry (new_effects s (move clk d s)) = telemetry pre"
    by (simp add: new_effects_def final_state_def telemetry_append)
  then show ?thesis
    by (simp add: p split: option.splits)
qed

lemma durations_ok_append: "durations_ok (xs @ ys) = (durations_ok xs \<and> durations_ok ys)"
  by (simp add: durations_ok_def telemetry_append)

lemma durations_ok_simps:
  "durations_ok []"
  "durations_ok (Info_duration c t # es) = (0 \<le> t \<and> durations_ok es)"
  "durations_ok (Motor l r # es) = durations_ok es"
  "durations_ok (Sleep n # es) = durations_ok es"
  "durations_ok (Debug_moving d # es) = durations_ok es"
  "durations_ok (Info_spinning d # es) = durations_ok es"
  "durations_ok (Info_speeds l r # es) = durations_ok es"
  "durations_ok (Info_terminated # es) = durations_ok es"
  "durations_ok (Error_main_loop err # es) = durations_ok es"
  by (simp_all add: durations_ok_def)

lemma start_time_read_emit: "start_time_read clk (emit out s) = start_time_read clk s"
  by (simp add: start_time_read_def emit_def split: option.splits)

lemma trace_emit: "trace (emit out s) = trace s @ [out]"
  by (simp add: emit_def)

text \<open>With a clock that never goes back, a stored start time is not after the next reading.\<close>

lemma start_time_not_after_reading:
  assumes "mono clk" and "start_time_read clk s" and "direction_start_time s = Some t0"
    and "time_calls s \<le> n"
  shows "t0 \<le> clk n"
proof -
  from assms(2,3) obtain m where "m < time_calls s" "t0 = clk m"
    by (auto simp: start_time_read_def list_ex_iff)
  with assms(1,4) show ?thesis
    by (simp add: monoD)
qed

lemma move_clock:
  assumes "mono clk" and "timestamp_ok s" and "start_time_read clk s"
    and "durations_ok (trace s)"
  shows "\<exists>s'. move clk d s = Inr s' \<and> timestamp_ok s' \<and> start_time_read clk s' \<and>
              durations_ok (trace s')"
proof (cases "current_direction s")
  case None
  with assms(4) show ?thesis
    by (simp add: move_first emit_def timestamp_ok_def start_time_read_def
        durations_ok_append durations_ok_simps list_ex_iff)
next
  case (Some c)
  show ?thesis
  proof (cases "c = d")
    case True
    with Some assms show ?thesis
      by (simp add: move_same timestamp_ok_emit start_time_read_emit trace_emit
          durations_ok_append durations_ok_simps)
  next
    case False
    from Some assms(2) obtain t0 where t0: "direction_start_time s = Some t0"
      by (auto simp: timestamp_ok_def)
    from start_time_not_after_reading [OF assms(1,3) t0, of "time_calls s"]
    have "0 \<le> clk (time_calls s) - t0"
      by simp
    with Some False t0 assms(4) show ?thesis
      by (simp add: move_change emit_def timestamp_ok_def start_time_read_def
          durations_ok_append durations_ok_simps list_ex_iff)
  qed
qed


lemma move_sound:
  assumes "mono clk" and "run_sound clk s"
  shows "\<exists>s'. move clk d s = Inr s' \<and> run_sound clk s'"
proof -
  from assms(2) have w: "well_formed s" and t: "timestamp_ok s"
    and r: "start_time_read clk s" and o: "durations_ok (trace s)"
    by (simp_all add: run_sound_def well_formed_def)
  from move_clock [OF assms(1) t r o, of d] move_well_formed [OF w, of clk d] show ?thesis
    by (auto simp: run_sound_def)
qed

lemma run_sound_emit:
  assumes "durations_ok [out]"
  shows "run_sound clk (emit out s) = run_sound clk s"
  using assms
  by (simp add: run_sound_def well_formed_emit start_time_read_emit trace_emit
      durations_ok_append)

lemma spin_sound:
  assumes "mono clk" and "run_sound clk s"
  shows "\<exists>s'. spin clk d s = Inr s' \<and> run_sound clk s'"
proof -
  from assms(2) have "run_sound clk (emit (Info_spinning d) s)"
    by (simp add: run_sound_emit durations_ok_simps)
  from move_sound [OF assms(1) this, of "''sharp_'' @ d"] obtain s1 where
    m1: "move clk (''sharp_'' @ d) (emit (Info_spinning d) s) = Inr s1" and s1: "run_sound clk s1"
    by blast
  from s1 have "run_sound clk (emit (Sleep 1) s1)"
    by (simp add: run_sound_emit durations_ok_simps)
  from move_sound [OF assms(1) this, of "''stop''"] m1 show ?thesis
    by (simp add: spin_def)
qed

lemma modify_speed_helper_sound:
  assumes "run_sound clk s"
  shows "run_sound clk (final_state (modify_speed_helper t s))"
proof -
  have "start_time_read clk (final_state (modify_speed_helper t s)) = start_time_read clk s"
    by (simp add: modify_speed_helper_def final_state_def start_time_read_def Let_def
        split: option.splits)
  moreover
  have "trace (final_state (modify_speed_helper t s)) = trace s"
    by (simp add: modify_speed_helper_def final_state_def Let_def split: option.splits)
  moreover
  from assms have "well_formed s" by (simp add: run_sound_def)
  from modify_speed_helper_well_formed [OF this, of t]
  have "well_formed (final_state (modify_speed_helper t s))" by blast
  ultimately show ?thesis
    using assms by (simp add: run_sound_def)
qed

lemma modify_speed_sound:
  assumes "run_sound clk s"
  shows "\<exists>s'. modify_speed c s = Inr s' \<and> run_sound clk s'"
proof -
  from assms have w: "well_formed s" by (simp add: run_sound_def)
  have "\<exists>s'. modify_speed_helper t s = Inr s' \<and> run_sound clk s'"
    if "t = ''slow'' \<or> t = ''fast'' \<or> t = ''super''" for t
  proof -
    from that w obtain v where "variable_speed_map s t = Some v"
      by (auto simp: well_formed_def flags_present_def)
    from modify_speed_helper_returns(1) [OF this] modify_speed_helper_sound [OF assms, of t]
    show ?thesis
      using returns_final_state by metis
  qed
  from this [of "''slow''"] this [of "''fast''"] this [of "''super''"] assms show ?thesis
    by (auto simp: modify_speed_def run_sound_emit durations_ok_simps)
qed

lemma handle_key_event_sound:
  assumes "mono clk" and "run_sound clk s"
  shows "run_sound clk (final_state (without_value (handle_key_event clk e held s)))"
proof -
  have m: "run_sound clk (final_state (without_value (returning v (move clk d s))))"
    for v :: bool and d
    using move_sound [OF assms, of d]
    by (auto simp: returning_def without_value_def final_state_def)
  have sp: "run_sound clk (final_state (without_value (returning v (spin clk d s))))"
    for v :: bool and d
    using spin_sound [OF assms, of d]
    by (auto simp: returning_def without_value_def final_state_def)
  have ms: "run_sound clk (final_state (without_value (returning v (modify_speed c s))))"
    for v :: bool and c
    using modify_speed_sound [OF assms(2), of c]
    by (auto simp: returning_def without_value_def final_state_def)
  from m sp ms assms(2) show ?thesis
    by (simp add: handle_key_event_def without_value_def final_state_def)
qed

lemma handle_abs_event_sound:
  assumes "mono clk" and "run_sound clk s"
  shows "run_sound clk (final_state (handle_abs_event clk e held s))"
proof -
  have "run_sound clk (final_state (move clk d s))" for d
    using move_sound [OF assms, of d] by (auto simp: final_state_def)
  with assms(2) show ?thesis
    by (simp add: handle_abs_event_def final_state_def)
qed

lemma call_sound:
  assumes "mono clk" and "run_sound clk s"
  shows "run_sound clk (final_state (call clk op s))"
proof (cases op)
  case (Move d)
  with move_sound [OF assms, of d] show ?thesis
    by (auto simp: final_state_def)
next
  case (Spin d)
  with spin_sound [OF assms, of d] show ?thesis
    by (auto simp: final_state_def)
next
  case (Modify_speed c)
  with modify_speed_sound [OF assms(2), of c] show ?thesis
    by (auto simp: final_state_def)
next
  case (Modify_speed_helper t)
  with modify_speed_helper_sound [OF assms(2), of t] show ?thesis
    by simp
next
  case (Key_event e held)
  with handle_key_event_sound [OF assms, of e held] show ?thesis
    by simp
next
  case (Abs_event e held)
  with handle_abs_event_sound [OF assms, of e held] show ?thesis
    by simp
qed

lemma calls_sound:
  assumes "mono clk" and "run_sound clk s"
  shows "run_sound clk (final_state (calls clk ops s))"
  using assms(2)
proof (induction ops arbitrary: s)
  case Nil
  then show ?case by (simp add: final_state_def)
next
  case (Cons op ops)
  show ?case
  proof (cases "call clk op s")
    case (Inl a)
    with call_sound [OF assms(1) Cons.prems, of op] show ?thesis
      by (cases a) (simp add: final_state_def)
  next
    case (Inr s1)
    with call_sound [OF assms(1) Cons.prems, of op] have "run_sound clk s1"
      by (simp add: final_state_def)
    from Cons.IH [OF this] Inr show ?thesis
      by simp
  qed
qed

lemma init_sound: "run_sound clk (init cfg)"
  using init_well_formed [of cfg]
  by (simp add: run_sound_def) (simp add: start_time_read_def durations_ok_simps init_def)


text \<open>
  Claim C9, as amended. In every object that satisfies the invariant, \<open>move\<close> returns
  and: when it leaves a direction \<open>c\<close> for a different one it emits exactly one duration
  record, carrying \<open>c\<close> and the clock reading minus the stored start time; when the
  direction stays the same, or no direction was set yet, it emits no duration record.
  When the readings of the clock never go back, no duration logged during a run of calls
  on the initial object is negative, and neither is the one the next \<open>move\<close> logs.
\<close>

theorem direction_change_telemetry:
  assumes "timestamp_ok s"
  shows "returns (move clk d s) \<and>
         (current_direction s = None \<longrightarrow> telemetry (new_effects s (move clk d s)) = []) \<and>
         (current_direction s = Some d \<longrightarrow> telemetry (new_effects s (move clk d s)) = []) \<and>
         (\<forall>c t0. current_direction s = Some c \<and> c \<noteq> d \<and> direction_start_time s = Some t0 \<longrightarrow>
            telemetry (new_effects s (move clk d s)) = [(c, clk (time_calls s) - t0)]) \<and>
         (mono clk \<and> s = final_state (calls clk ops (init cfg)) \<longrightarrow>
            durations_ok (trace s) \<and>
            (\<forall>c t0. current_direction s = Some c \<and> c \<noteq> d \<and>
                    direction_start_time s = Some t0 \<longrightarrow> 0 \<le> clk (time_calls s) - t0))"
proof -
  have run: "durations_ok (trace s) \<and>
      (\<forall>c t0. current_direction s = Some c \<and> c \<noteq> d \<and>
              direction_start_time s = Some t0 \<longrightarrow> 0 \<le> clk (time_calls s) - t0)"
    if m: "mono clk" and s: "s = final_state (calls clk ops (init cfg))"
  proof -
    from calls_sound [OF m init_sound, of ops cfg] s have r: "run_sound clk s"
      by simp
    then have sr: "start_time_read clk s" and ok: "durations_ok (trace s)"
      by (simp_all add: run_sound_def)
    have "0 \<le> clk (time_calls s) - t0" if "direction_start_time s = Some t0" for t0
      using start_time_not_after_reading [OF m sr that, of "time_calls s"] by simp
    with ok show ?thesis
      by blast
  qed
  from move_motor [OF assms, of clk d] move_telemetry [OF assms, of clk d] run show ?thesis
    by auto
qed

text \<open>
  The claim as written promises a non-negative duration whatever the clock does.
  \<open>time.time()\<close> is the wall clock; when it is set back between two changes of
  direction the logged duration is negative.
\<close>

theorem negative_duration_counterexample:
  "telemetry (trace (final_state
     (calls clock_set_back [Move ''forward'', Move ''stop''] (init default_config)))) =
   [(''forward'', - 5)]"
  by (simp add: move_def time_time_def emit_def init_def final_state_def directions_def
      clock_set_back_def)

theorem direction_change_telemetry_witness:
  "timestamp_ok (final_state (calls clock_steady [Move ''forward''] (init default_config))) \<and>
   mono clock_steady \<and>
   telemetry (new_effects (final_state (calls clock_steady [Move ''forward'']
       (init default_config)))
     (move clock_steady ''stop''
       (final_state (calls clock_steady [Move ''forward''] (init default_config))))) =
   [(''forward'', 1)] \<and>
   durations_ok (trace (final_state (calls clock_steady [Move ''forward'']
       (init default_config))))"
proof -
  let ?s = "final_state (calls clock_steady [Move ''forward''] (init default_config))"
  have s: "?s =
     (init default_config)\<lparr>current_direction := Some ''forward'',
        direction_start_time := Some 0, time_calls := 1,
        trace := [Debug_moving ''forward'', Motor (- 0.5) (- 0.51)]\<rparr>"
    by (simp add: move_def time_time_def emit_def init_def final_state_def directions_def
      clock_steady_def default_config_def)
  have ok: "timestamp_ok ?s"
    by (simp only: s) (simp add: timestamp_ok_def)
  have m: "mono clock_steady"
    by (simp add: mono_def clock_steady_def)
  have c: "current_direction ?s = Some ''forward'' \<and> ''forward'' \<noteq> ''stop'' \<and>
      direction_start_time ?s = Some 0"
    by (simp only: s) simp
  have n: "clock_steady (time_calls ?s) - 0 = 1"
    by (simp only: s) (simp add: clock_steady_def)
  from direction_change_telemetry [OF ok, of clock_steady "''stop''" "[Move ''forward'']"
      default_config] m c
  have "telemetry (new_effects ?s (move clock_steady ''stop'' ?s)) =
          [(''forward'', clock_steady (time_calls ?s) - 0)] \<and> durations_ok (trace ?s)"
    by blast
  then have "telemetry (new_effects ?s (move clock_steady ''stop'' ?s)) = [(''forward'', 1)] \<and>
      durations_ok (trace ?s)"
    by (simp only: n)
  with ok m show ?thesis
    by blast
qed

end
